theory Spec2Isabelle
  imports Main
begin

section \<open>Data model (src/@types/module.d.ts)\<close>

text \<open>
  Identifiers are JavaScript strings. Timestamps and player counts are JavaScript numbers
  that hold integers (\<open>Date.now()\<close>, \<open>Date.getTime()\<close>, \<open>parseInt\<close>); they are
  modelled as \<open>int\<close>. The interfaces share the field names \<open>id\<close> and \<open>createdAt\<close>;
  a record field is a constant of the theory, so these two carry a prefix for their
  interface (\<open>u_\<close>, \<open>e_\<close>, \<open>r_\<close>); every other field keeps its name.
\<close>

type_synonym UserId = string
type_synonym EventId = string
type_synonym RequestId = string

datatype RequestStatus = PENDING | ACCEPTED | REJECTED | CANCELLED | EXPIRED

record User =
  u_id :: UserId
  username :: string
  u_createdAt :: int
  passwordHash :: string

record SportingEvent =
  e_id :: EventId
  title :: string
  sport :: string
  endTime :: int
  location :: string
  startTime :: int
  e_createdAt :: int
  maxPlayers :: int
  description :: string
  organizerId :: UserId

record JoinRequest =
  r_id :: RequestId
  userId :: UserId
  eventId :: EventId
  r_createdAt :: int
  updatedAt :: int
  status :: RequestStatus

record AuthState =
  isAuthenticated :: bool
  currentUserId :: "UserId option"

text \<open>
  \<open>Omit<SportingEvent, "id" | "organizerId" | "createdAt">\<close>, the argument of
  \<open>createEventAtom\<close>.
\<close>

record EventData =
  d_title :: string
  d_sport :: string
  d_endTime :: int
  d_location :: string
  d_startTime :: int
  d_maxPlayers :: int
  d_description :: string

text \<open>
  \<open>Partial<SportingEvent>\<close>, the \<open>updates\<close> argument of \<open>updateEventAtom\<close>: each key
  is absent (\<open>None\<close>) or carries a value of the field's type.
\<close>

record EventUpdates =
  upd_id :: "EventId option"
  upd_title :: "string option"
  upd_sport :: "string option"
  upd_endTime :: "int option"
  upd_location :: "string option"
  upd_startTime :: "int option"
  upd_createdAt :: "int option"
  upd_maxPlayers :: "int option"
  upd_description :: "string option"
  upd_organizerId :: "UserId option"

section \<open>The JavaScript \<open>Map\<close>\<close>

text \<open>
  A \<open>Map\<close> iterates in insertion order, and \<open>find\<close> over \<open>Array.from(m.values())\<close>
  returns the first match in that order, so the collections are association lists.
  \<open>set\<close> on a key that is present replaces the value where it stands, on a new key it
  appends; \<open>delete\<close> removes the key. The keys of a \<open>Map\<close> are pairwise distinct.
\<close>

type_synonym ('k, 'v) jsmap = "('k \<times> 'v) list"

fun jm_get :: "('k, 'v) jsmap \<Rightarrow> 'k \<Rightarrow> 'v option" where
  "jm_get [] k = None"
| "jm_get ((k', v) # m) k = (if k' = k then Some v else jm_get m k)"

fun jm_set :: "'k \<Rightarrow> 'v \<Rightarrow> ('k, 'v) jsmap \<Rightarrow> ('k, 'v) jsmap" where
  "jm_set k v [] = [(k, v)]"
| "jm_set k v ((k', v') # m) = (if k' = k then (k, v) # m else (k', v') # jm_set k v m)"

fun jm_delete :: "'k \<Rightarrow> ('k, 'v) jsmap \<Rightarrow> ('k, 'v) jsmap" where
  "jm_delete k [] = []"
| "jm_delete k ((k', v') # m) = (if k' = k then jm_delete k m else (k', v') # jm_delete k m)"

definition jm_keys :: "('k, 'v) jsmap \<Rightarrow> 'k list" where
  "jm_keys m = map fst m"

definition jm_values :: "('k, 'v) jsmap \<Rightarrow> 'v list" where
  "jm_values m = map snd m"

section \<open>The store (src/unnamed/part_001, imported as \<open>@/state/atoms\<close>)\<close>

text \<open>
  The four atoms \<open>usersAtom\<close>, \<open>eventsAtom\<close>, \<open>requestsAtom\<close> and \<open>authAtom\<close>.
  A write atom that throws has written nothing before the throw, so a failing operation
  returns only its message (\<open>Inl\<close>) and the store stays as it was.
\<close>

record Store =
  users :: "(UserId, User) jsmap"
  events :: "(EventId, SportingEvent) jsmap"
  requests :: "(RequestId, JoinRequest) jsmap"
  auth :: AuthState

definition unauthenticated :: AuthState where
  "unauthenticated = \<lparr>isAuthenticated = False, currentUserId = None\<rparr>"

definition init_store :: Store where
  "init_store = \<lparr>users = [], events = [], requests = [], auth = unauthenticated\<rparr>"

text \<open>
  The guard \<open>!auth.isAuthenticated || !auth.currentUserId\<close>: \<open>null\<close> and the empty
  string are both falsy. \<open>session a\<close> is the user id when the guard lets the call through.
\<close>

definition session :: "AuthState \<Rightarrow> UserId option" where
  "session a =
     (if \<not> isAuthenticated a then None
      else case currentUserId a of
             None \<Rightarrow> None
           | Some uid \<Rightarrow> if uid = [] then None else Some uid)"

section \<open>Authentication (src/state/auth.ts)\<close>

definition hashPassword :: "string \<Rightarrow> string" where
  "hashPassword password = ''hashed_'' @ password"

definition verifyPassword :: "string \<Rightarrow> string \<Rightarrow> bool" where
  "verifyPassword password hash = (hashPassword password = hash)"

text \<open>
  \<open>registerUserAtom\<close>. \<open>newId\<close> is the value of \<open>nanoid()\<close>, \<open>now\<close> that of
  \<open>Date.now()\<close>. The result is the lines written by \<open>console.log\<close>, the returned user
  and the store afterwards.
\<close>

definition registerUser ::
  "Store \<Rightarrow> string \<Rightarrow> string \<Rightarrow> UserId \<Rightarrow> int \<Rightarrow> string list \<times> User \<times> Store" where
  "registerUser st name password newId now =
     (let existingUser = find (\<lambda>user. username user = name) (jm_values (users st));
          logs = (case existingUser of Some _ \<Rightarrow> [''User already exist''] | None \<Rightarrow> []);
          newUser = \<lparr>u_id = newId, username = name, u_createdAt = now,
                     passwordHash = hashPassword password\<rparr>
      in (logs, newUser,
          st\<lparr>users := jm_set (u_id newUser) newUser (users st),
             auth := \<lparr>isAuthenticated = True, currentUserId = Some (u_id newUser)\<rparr>\<rparr>))"

text \<open>
  \<open>loginUserAtom\<close>. The result is the lines written by \<open>console.log\<close>, the returned
  value (\<open>None\<close> for \<open>undefined\<close>) and the store afterwards.
\<close>

definition loginUser ::
  "Store \<Rightarrow> string \<Rightarrow> string \<Rightarrow> string list \<times> User option \<times> Store" where
  "loginUser st name password =
     (case find (\<lambda>u. username u = name) (jm_values (users st)) of
        None \<Rightarrow> ([''No user exist''], None, st)
      | Some user \<Rightarrow>
          (if \<not> verifyPassword password (passwordHash user)
           then [''Invalid username or password''] else [],
           Some user,
           st\<lparr>auth := \<lparr>isAuthenticated = True, currentUserId = Some (u_id user)\<rparr>\<rparr>))"

definition logoutUser :: "Store \<Rightarrow> Store" where
  "logoutUser st = st\<lparr>auth := \<lparr>isAuthenticated = False, currentUserId = None\<rparr>\<rparr>"

text \<open>\<open>clearAllDataAtom\<close> (src/state/utility.ts).\<close>

definition clearAllData :: "Store \<Rightarrow> Store" where
  "clearAllData st =
     \<lparr>users = [], events = [], requests = [],
      auth = \<lparr>isAuthenticated = False, currentUserId = None\<rparr>\<rparr>"

section \<open>Events (src/state/event.ts)\<close>

text \<open>
  \<open>createEventAtom\<close>. \<open>newId\<close> is the value of \<open>generateUUID()\<close>, \<open>now\<close> that of
  \<open>Date.now()\<close>. The function performs no check on the fields of \<open>eventData\<close>.
\<close>

definition createEvent ::
  "Store \<Rightarrow> EventData \<Rightarrow> EventId \<Rightarrow> int \<Rightarrow> string + SportingEvent \<times> Store" where
  "createEvent st eventData newId now =
     (case session (auth st) of
        None \<Rightarrow> Inl ''User must be authenticated to create an event''
      | Some uid \<Rightarrow>
          (let newEvent =
                 \<lparr>e_id = newId, title = d_title eventData, sport = d_sport eventData,
                  endTime = d_endTime eventData, location = d_location eventData,
                  startTime = d_startTime eventData, e_createdAt = now,
                  maxPlayers = d_maxPlayers eventData,
                  description = d_description eventData, organizerId = uid\<rparr>
           in Inr (newEvent, st\<lparr>events := jm_set (e_id newEvent) newEvent (events st)\<rparr>)))"

text \<open>The object spread \<open>{ ...event, ...updates }\<close>: a key of \<open>updates\<close> wins.\<close>

definition spread :: "'a \<Rightarrow> 'a option \<Rightarrow> 'a" where
  "spread old upd = (case upd of None \<Rightarrow> old | Some v \<Rightarrow> v)"

definition merge_event :: "SportingEvent \<Rightarrow> EventUpdates \<Rightarrow> SportingEvent" where
  "merge_event event updates =
     \<lparr>e_id = spread (e_id event) (upd_id updates),
      title = spread (title event) (upd_title updates),
      sport = spread (sport event) (upd_sport updates),
      endTime = spread (endTime event) (upd_endTime updates),
      location = spread (location event) (upd_location updates),
      startTime = spread (startTime event) (upd_startTime updates),
      e_createdAt = spread (e_createdAt event) (upd_createdAt updates),
      maxPlayers = spread (maxPlayers event) (upd_maxPlayers updates),
      description = spread (description event) (upd_description updates),
      organizerId = spread (organizerId event) (upd_organizerId updates)\<rparr>"

text \<open>\<open>updateEventAtom\<close>.\<close>

definition updateEvent ::
  "Store \<Rightarrow> EventId \<Rightarrow> EventUpdates \<Rightarrow> string + SportingEvent \<times> Store" where
  "updateEvent st eid updates =
     (case session (auth st) of
        None \<Rightarrow> Inl ''User must be authenticated''
      | Some uid \<Rightarrow>
          (case jm_get (events st) eid of
             None \<Rightarrow> Inl ''Event not found''
           | Some event \<Rightarrow>
               if organizerId event \<noteq> uid
               then Inl ''Only the organizer can update the event''
               else (let updatedEvent = merge_event event updates
                     in Inr (updatedEvent,
                             st\<lparr>events := jm_set eid updatedEvent (events st)\<rparr>))))"

text \<open>
  The loop of \<open>deleteEventAtom\<close>: it walks the requests as they were and deletes from
  the copy the key of each request of the event.
\<close>

definition delete_step ::
  "EventId \<Rightarrow> RequestId \<times> JoinRequest \<Rightarrow> (RequestId, JoinRequest) jsmap
     \<Rightarrow> (RequestId, JoinRequest) jsmap" where
  "delete_step eid entry updatedRequests =
     (if eventId (snd entry) = eid then jm_delete (fst entry) updatedRequests
      else updatedRequests)"

definition deleteEvent :: "Store \<Rightarrow> EventId \<Rightarrow> string + Store" where
  "deleteEvent st eid =
     (case session (auth st) of
        None \<Rightarrow> Inl ''User must be authenticated''
      | Some uid \<Rightarrow>
          (case jm_get (events st) eid of
             None \<Rightarrow> Inl ''Event not found''
           | Some event \<Rightarrow>
               if organizerId event \<noteq> uid
               then Inl ''Only the organizer can delete the event''
               else Inr (st\<lparr>events := jm_delete eid (events st),
                            requests := fold (delete_step eid) (requests st) (requests st)\<rparr>)))"

section \<open>Join requests (src/state/event.ts)\<close>

text \<open>The number of accepted requests of an event, as the three capacity checks count it.\<close>

definition acceptedCount :: "(RequestId, JoinRequest) jsmap \<Rightarrow> EventId \<Rightarrow> int" where
  "acceptedCount rs eid =
     int (length (filter (\<lambda>req. eventId req = eid \<and> status req = ACCEPTED) (jm_values rs)))"

text \<open>\<open>status.toLowerCase()\<close>, used in the message of a duplicate request.\<close>

fun status_lower :: "RequestStatus \<Rightarrow> string" where
  "status_lower PENDING = ''pending''"
| "status_lower ACCEPTED = ''accepted''"
| "status_lower REJECTED = ''rejected''"
| "status_lower CANCELLED = ''cancelled''"
| "status_lower EXPIRED = ''expired''"

text \<open>\<open>createJoinRequestAtom\<close>. \<open>newId\<close> is \<open>generateUUID()\<close>, \<open>now\<close> is \<open>Date.now()\<close>.\<close>

definition createJoinRequest ::
  "Store \<Rightarrow> EventId \<Rightarrow> RequestId \<Rightarrow> int \<Rightarrow> string + JoinRequest \<times> Store" where
  "createJoinRequest st eid newId now =
     (case session (auth st) of
        None \<Rightarrow> Inl ''User must be authenticated to join an event''
      | Some uid \<Rightarrow>
          (case jm_get (events st) eid of
             None \<Rightarrow> Inl ''Event not found''
           | Some event \<Rightarrow>
               if startTime event \<le> now then Inl ''Event has already started''
               else if organizerId event = uid
               then Inl ''Organizer cannot join their own event''
               else
                 (case find (\<lambda>req. eventId req = eid \<and> userId req = uid \<and>
                                    (status req = PENDING \<or> status req = ACCEPTED))
                            (jm_values (requests st)) of
                    Some existingRequest \<Rightarrow>
                      Inl (''You already have a '' @ status_lower (status existingRequest)
                           @ '' request'')
                  | None \<Rightarrow>
                      if acceptedCount (requests st) eid \<ge> maxPlayers event
                      then Inl ''Event is full''
                      else (let newRequest =
                                  \<lparr>r_id = newId, userId = uid, eventId = eid,
                                   r_createdAt = now, updatedAt = now, status = PENDING\<rparr>
                            in Inr (newRequest,
                                    st\<lparr>requests :=
                                         jm_set (r_id newRequest) newRequest (requests st)\<rparr>)))))"

text \<open>\<open>acceptJoinRequestAtom\<close>.\<close>

definition acceptJoinRequest ::
  "Store \<Rightarrow> RequestId \<Rightarrow> int \<Rightarrow> string + JoinRequest \<times> Store" where
  "acceptJoinRequest st rid now =
     (case session (auth st) of
        None \<Rightarrow> Inl ''User must be authenticated''
      | Some uid \<Rightarrow>
          (case jm_get (requests st) rid of
             None \<Rightarrow> Inl ''Request not found''
           | Some request \<Rightarrow>
               (case jm_get (events st) (eventId request) of
                  None \<Rightarrow> Inl ''Event not found''
                | Some event \<Rightarrow>
                    if organizerId event \<noteq> uid
                    then Inl ''Only the organizer can accept requests''
                    else if status request \<noteq> PENDING then Inl ''Request is not pending''
                    else if acceptedCount (requests st) (eventId request) \<ge> maxPlayers event
                    then Inl ''Event is full''
                    else (let updatedRequest = request\<lparr>status := ACCEPTED, updatedAt := now\<rparr>
                          in Inr (updatedRequest,
                                  st\<lparr>requests := jm_set rid updatedRequest (requests st)\<rparr>)))))"

text \<open>\<open>rejectJoinRequestAtom\<close>.\<close>

definition rejectJoinRequest ::
  "Store \<Rightarrow> RequestId \<Rightarrow> int \<Rightarrow> string + JoinRequest \<times> Store" where
  "rejectJoinRequest st rid now =
     (case session (auth st) of
        None \<Rightarrow> Inl ''User must be authenticated''
      | Some uid \<Rightarrow>
          (case jm_get (requests st) rid of
             None \<Rightarrow> Inl ''Request not found''
           | Some request \<Rightarrow>
               (case jm_get (events st) (eventId request) of
                  None \<Rightarrow> Inl ''Event not found''
                | Some event \<Rightarrow>
                    if organizerId event \<noteq> uid
                    then Inl ''Only the organizer can reject requests''
                    else if status request \<noteq> PENDING then Inl ''Request is not pending''
                    else (let updatedRequest = request\<lparr>status := REJECTED, updatedAt := now\<rparr>
                          in Inr (updatedRequest,
                                  st\<lparr>requests := jm_set rid updatedRequest (requests st)\<rparr>)))))"

text \<open>
  \<open>cancelJoinRequestAtom\<close>. It reads the clock twice: \<open>now\<close> for the check that the
  event has not started, \<open>now'\<close> for \<open>updatedAt\<close>.
\<close>

definition cancelJoinRequest ::
  "Store \<Rightarrow> RequestId \<Rightarrow> int \<Rightarrow> int \<Rightarrow> string + JoinRequest \<times> Store" where
  "cancelJoinRequest st rid now now' =
     (case session (auth st) of
        None \<Rightarrow> Inl ''User must be authenticated''
      | Some uid \<Rightarrow>
          (case jm_get (requests st) rid of
             None \<Rightarrow> Inl ''Request not found''
           | Some request \<Rightarrow>
               if userId request \<noteq> uid then Inl ''You can only cancel your own requests''
               else if status request \<noteq> PENDING then Inl ''Can only cancel pending requests''
               else
                 (case jm_get (events st) (eventId request) of
                    None \<Rightarrow> Inl ''Event not found''
                  | Some event \<Rightarrow>
                      if startTime event \<le> now
                      then Inl ''Cannot cancel request after event has started''
                      else (let updatedRequest =
                                  request\<lparr>status := CANCELLED, updatedAt := now'\<rparr>
                            in Inr (updatedRequest,
                                    st\<lparr>requests :=
                                         jm_set rid updatedRequest (requests st)\<rparr>)))))"

text \<open>
  \<open>expirePendingRequestsAtom\<close>. The loop walks the requests as they were and carries
  the copy \<open>updatedRequests\<close> and the counter \<open>expiredCount\<close>; the copy is written back
  only when the counter is positive. The result is the counter and the store afterwards.
\<close>

definition expire_step ::
  "(EventId, SportingEvent) jsmap \<Rightarrow> int \<Rightarrow> RequestId \<times> JoinRequest
     \<Rightarrow> (RequestId, JoinRequest) jsmap \<times> nat \<Rightarrow> (RequestId, JoinRequest) jsmap \<times> nat" where
  "expire_step evs now entry acc =
     (if status (snd entry) = PENDING
      then (case jm_get evs (eventId (snd entry)) of
              None \<Rightarrow> acc
            | Some event \<Rightarrow>
                if startTime event \<le> now
                then (jm_set (fst entry) ((snd entry)\<lparr>status := EXPIRED, updatedAt := now\<rparr>)
                        (fst acc),
                      snd acc + 1)
                else acc)
      else acc)"

definition expirePendingRequests :: "Store \<Rightarrow> int \<Rightarrow> nat \<times> Store" where
  "expirePendingRequests st now =
     (let res = fold (expire_step (events st) now) (requests st) (requests st, 0);
          updatedRequests = fst res;
          expiredCount = snd res
      in (expiredCount, if expiredCount > 0 then st\<lparr>requests := updatedRequests\<rparr> else st))"

section \<open>Join eligibility (\<open>canJoinEventAtom\<close>, src/unnamed/part_001)\<close>

record JoinCheck =
  canJoin :: bool
  reason :: "string option"

definition canJoinEvent :: "Store \<Rightarrow> EventId \<Rightarrow> UserId \<Rightarrow> int \<Rightarrow> JoinCheck" where
  "canJoinEvent st eid uid now =
     (case jm_get (events st) eid of
        None \<Rightarrow> \<lparr>canJoin = False, reason = Some ''Event not found''\<rparr>
      | Some event \<Rightarrow>
          if startTime event \<le> now
          then \<lparr>canJoin = False, reason = Some ''Event has already started''\<rparr>
          else if organizerId event = uid
          then \<lparr>canJoin = False, reason = Some ''You are the organizer''\<rparr>
          else
            (let userRequest = find (\<lambda>req. eventId req = eid \<and> userId req = uid)
                                    (jm_values (requests st))
             in if (case userRequest of None \<Rightarrow> False | Some r \<Rightarrow> status r = ACCEPTED)
                then \<lparr>canJoin = False, reason = Some ''You are already accepted''\<rparr>
                else if (case userRequest of None \<Rightarrow> False | Some r \<Rightarrow> status r = PENDING)
                then \<lparr>canJoin = False, reason = Some ''You have a pending request''\<rparr>
                else if acceptedCount (requests st) eid \<ge> maxPlayers event
                then \<lparr>canJoin = False, reason = Some ''Event is full''\<rparr>
                else \<lparr>canJoin = True, reason = None\<rparr>))"

section \<open>Runs of the mutation layer\<close>

text \<open>
  One constructor for each write atom, with the values it reads from its caller, from
  the id generator and from the clock. \<open>exec\<close> is the store after the call; a call that
  throws leaves the store as it was. \<open>run\<close> performs a list of calls in order.
\<close>

datatype Action =
    Register string string UserId int
  | Login string string
  | Logout
  | ClearAllData
  | CreateEvent EventData EventId int
  | UpdateEvent EventId EventUpdates
  | DeleteEvent EventId
  | CreateJoinRequest EventId RequestId int
  | AcceptJoinRequest RequestId int
  | RejectJoinRequest RequestId int
  | CancelJoinRequest RequestId int int
  | ExpirePendingRequests int

definition after :: "Store \<Rightarrow> string + 'a \<times> Store \<Rightarrow> Store" where
  "after st res = (case res of Inl _ \<Rightarrow> st | Inr p \<Rightarrow> snd p)"

fun exec :: "Store \<Rightarrow> Action \<Rightarrow> Store" where
  "exec st (Register name password newId now) =
     snd (snd (registerUser st name password newId now))"
| "exec st (Login name password) = snd (snd (loginUser st name password))"
| "exec st Logout = logoutUser st"
| "exec st ClearAllData = clearAllData st"
| "exec st (CreateEvent eventData newId now) = after st (createEvent st eventData newId now)"
| "exec st (UpdateEvent eid updates) = after st (updateEvent st eid updates)"
| "exec st (DeleteEvent eid) = (case deleteEvent st eid of Inl _ \<Rightarrow> st | Inr st' \<Rightarrow> st')"
| "exec st (CreateJoinRequest eid newId now) = after st (createJoinRequest st eid newId now)"
| "exec st (AcceptJoinRequest rid now) = after st (acceptJoinRequest st rid now)"
| "exec st (RejectJoinRequest rid now) = after st (rejectJoinRequest st rid now)"
| "exec st (CancelJoinRequest rid now now') = after st (cancelJoinRequest st rid now now')"
| "exec st (ExpirePendingRequests now) = snd (expirePendingRequests st now)"

definition run :: "Store \<Rightarrow> Action list \<Rightarrow> Store" where
  "run st acts = foldl exec st acts"

text \<open>
  The requests of user \<open>uid\<close> for event \<open>eid\<close> that are PENDING or ACCEPTED, under the
  predicate \<open>createJoinRequestAtom\<close> searches with.
\<close>

definition active_requests ::
  "UserId \<Rightarrow> EventId \<Rightarrow> (RequestId, JoinRequest) jsmap \<Rightarrow> JoinRequest list" where
  "active_requests uid eid rs =
     filter (\<lambda>req. eventId req = eid \<and> userId req = uid \<and>
                   (status req = PENDING \<or> status req = ACCEPTED)) (jm_values rs)"

text \<open>
  \<open>generateUUID()\<close> is meant to return an id that is not in use. \<open>fresh_id st a\<close>
  says so for the one action that stores a request under a generated id.
\<close>

fun fresh_id :: "Store \<Rightarrow> Action \<Rightarrow> bool" where
  "fresh_id st (CreateJoinRequest eid newId now) = (newId \<notin> set (jm_keys (requests st)))"
| "fresh_id st _ = True"

text \<open>The actions that take requests out of the collection.\<close>

fun removes_requests :: "Action \<Rightarrow> bool" where
  "removes_requests (DeleteEvent eid) = True"
| "removes_requests ClearAllData = True"
| "removes_requests _ = False"

text \<open>
  The condition under which the loop of \<open>expirePendingRequestsAtom\<close> rewrites a
  request, and the request it writes.
\<close>

definition should_expire ::
  "(EventId, SportingEvent) jsmap \<Rightarrow> int \<Rightarrow> JoinRequest \<Rightarrow> bool" where
  "should_expire evs now request =
     (status request = PENDING \<and>
      (case jm_get evs (eventId request) of
         None \<Rightarrow> False
       | Some event \<Rightarrow> startTime event \<le> now))"

definition expired :: "int \<Rightarrow> JoinRequest \<Rightarrow> JoinRequest" where
  "expired now request = request\<lparr>status := EXPIRED, updatedAt := now\<rparr>"

text \<open>
  The invariant of the Requests collection: for every user and event, at most one
  request of that user for that event is PENDING or ACCEPTED.
\<close>

definition one_active_per_pair :: "(RequestId, JoinRequest) jsmap \<Rightarrow> bool" where
  "one_active_per_pair rs = (\<forall>uid eid. length (active_requests uid eid rs) \<le> 1)"

section \<open>Example stores\<close>

definition alice :: User where
  "alice = \<lparr>u_id = ''u1'', username = ''alice'', u_createdAt = 1,
            passwordHash = ''hashed_pw1''\<rparr>"

definition bob :: User where
  "bob = \<lparr>u_id = ''u2'', username = ''bob'', u_createdAt = 3,
          passwordHash = ''hashed_pw2''\<rparr>"

definition carol :: User where
  "carol = \<lparr>u_id = ''u3'', username = ''carol'', u_createdAt = 5,
            passwordHash = ''hashed_pw3''\<rparr>"

definition sample_event_data :: EventData where
  "sample_event_data =
     \<lparr>d_title = ''Five-a-side'', d_sport = ''Football'', d_endTime = 200,
      d_location = ''Pitch 1'', d_startTime = 100, d_maxPlayers = 2,
      d_description = ''Bring boots''\<rparr>"

definition sample_event :: SportingEvent where
  "sample_event =
     \<lparr>e_id = ''e1'', title = ''Five-a-side'', sport = ''Football'', endTime = 200,
      location = ''Pitch 1'', startTime = 100, e_createdAt = 2, maxPlayers = 2,
      description = ''Bring boots'', organizerId = ''u1''\<rparr>"

text \<open>
  Bob asks to join Alice's event, cancels, and asks again: his first request is
  CANCELLED, his second PENDING.
\<close>

definition sample_run :: "Action list" where
  "sample_run =
     [Register ''alice'' ''pw1'' ''u1'' 1,
      CreateEvent sample_event_data ''e1'' 2,
      Register ''bob'' ''pw2'' ''u2'' 3,
      CreateJoinRequest ''e1'' ''r1'' 4,
      CancelJoinRequest ''r1'' 5 5,
      CreateJoinRequest ''e1'' ''r2'' 6]"

definition sample_store :: Store where
  "sample_store =
     \<lparr>users = [(''u1'', alice), (''u2'', bob)],
      events = [(''e1'', sample_event)],
      requests =
        [(''r1'', \<lparr>r_id = ''r1'', userId = ''u2'', eventId = ''e1'', r_createdAt = 4,
                   updatedAt = 5, status = CANCELLED\<rparr>),
         (''r2'', \<lparr>r_id = ''r2'', userId = ''u2'', eventId = ''e1'', r_createdAt = 6,
                   updatedAt = 6, status = PENDING\<rparr>)],
      auth = \<lparr>isAuthenticated = True, currentUserId = Some ''u2''\<rparr>\<rparr>"

text \<open>
  Alice organises a singles match (one player) and a doubles match (two players). Bob
  and Carol ask to join the singles match, Carol also the doubles match; Alice logs in
  again and accepts Bob, which fills the singles match while Carol's request for it is
  still PENDING.
\<close>

definition singles_data :: EventData where
  "singles_data =
     \<lparr>d_title = ''Singles'', d_sport = ''Tennis'', d_endTime = 200,
      d_location = ''Court 1'', d_startTime = 100, d_maxPlayers = 1,
      d_description = ''One set''\<rparr>"

definition doubles_data :: EventData where
  "doubles_data =
     \<lparr>d_title = ''Doubles'', d_sport = ''Tennis'', d_endTime = 400,
      d_location = ''Court 2'', d_startTime = 300, d_maxPlayers = 2,
      d_description = ''Two sets''\<rparr>"

definition singles :: SportingEvent where
  "singles =
     \<lparr>e_id = ''e1'', title = ''Singles'', sport = ''Tennis'', endTime = 200,
      location = ''Court 1'', startTime = 100, e_createdAt = 2, maxPlayers = 1,
      description = ''One set'', organizerId = ''u1''\<rparr>"

definition doubles :: SportingEvent where
  "doubles =
     \<lparr>e_id = ''e2'', title = ''Doubles'', sport = ''Tennis'', endTime = 400,
      location = ''Court 2'', startTime = 300, e_createdAt = 2, maxPlayers = 2,
      description = ''Two sets'', organizerId = ''u1''\<rparr>"

definition bob_singles :: JoinRequest where
  "bob_singles = \<lparr>r_id = ''r1'', userId = ''u2'', eventId = ''e1'', r_createdAt = 4,
                  updatedAt = 9, status = ACCEPTED\<rparr>"

definition carol_singles :: JoinRequest where
  "carol_singles = \<lparr>r_id = ''r2'', userId = ''u3'', eventId = ''e1'', r_createdAt = 6,
                    updatedAt = 6, status = PENDING\<rparr>"

definition carol_doubles :: JoinRequest where
  "carol_doubles = \<lparr>r_id = ''r3'', userId = ''u3'', eventId = ''e2'', r_createdAt = 7,
                    updatedAt = 7, status = PENDING\<rparr>"

definition club_run :: "Action list" where
  "club_run =
     [Register ''alice'' ''pw1'' ''u1'' 1,
      CreateEvent singles_data ''e1'' 2,
      CreateEvent doubles_data ''e2'' 2,
      Register ''bob'' ''pw2'' ''u2'' 3,
      CreateJoinRequest ''e1'' ''r1'' 4,
      Register ''carol'' ''pw3'' ''u3'' 5,
      CreateJoinRequest ''e1'' ''r2'' 6,
      CreateJoinRequest ''e2'' ''r3'' 7,
      Login ''alice'' ''pw1'',
      AcceptJoinRequest ''r1'' 9]"

definition club_store :: Store where
  "club_store =
     \<lparr>users = [(''u1'', alice), (''u2'', bob), (''u3'', carol)],
      events = [(''e1'', singles), (''e2'', doubles)],
      requests = [(''r1'', bob_singles), (''r2'', carol_singles), (''r3'', carol_doubles)],
      auth = \<lparr>isAuthenticated = True, currentUserId = Some ''u1''\<rparr>\<rparr>"

text \<open>Event data and updates whose end time is not after the start time.\<close>

definition late_data :: EventData where
  "late_data =
     \<lparr>d_title = ''Backwards'', d_sport = ''Chess'', d_endTime = 500,
      d_location = ''Hall'', d_startTime = 600, d_maxPlayers = 2,
      d_description = ''Ends early''\<rparr>"

definition late_event :: SportingEvent where
  "late_event =
     \<lparr>e_id = ''e3'', title = ''Backwards'', sport = ''Chess'', endTime = 500,
      location = ''Hall'', startTime = 600, e_createdAt = 10, maxPlayers = 2,
      description = ''Ends early'', organizerId = ''u1''\<rparr>"

definition no_updates :: EventUpdates where
  "no_updates =
     \<lparr>upd_id = None, upd_title = None, upd_sport = None, upd_endTime = None,
      upd_location = None, upd_startTime = None, upd_createdAt = None,
      upd_maxPlayers = None, upd_description = None, upd_organizerId = None\<rparr>"

section \<open>Lemmas on the collections\<close>

lemmas example_defs =
  alice_def bob_def carol_def sample_event_data_def sample_event_def sample_run_def
  sample_store_def singles_data_def doubles_data_def singles_def doubles_def
  bob_singles_def carol_singles_def carol_doubles_def club_run_def club_store_def
  late_data_def late_event_def no_updates_def

lemmas run_defs =
  run_def init_store_def unauthenticated_def registerUser_def loginUser_def
  createEvent_def createJoinRequest_def cancelJoinRequest_def acceptJoinRequest_def
  session_def jm_values_def acceptedCount_def after_def hashPassword_def
  verifyPassword_def Let_def

lemma sample_store_reached: "run init_store sample_run = sample_store"
  by (simp add: example_defs run_defs)

lemma club_store_reached: "run init_store club_run = club_store"
  by (simp add: example_defs run_defs)

lemma jm_get_set: "jm_get (jm_set k v m) k' = (if k' = k then Some v else jm_get m k')"
  by (induction m) auto

lemma jm_get_delete: "jm_get (jm_delete k m) k' = (if k' = k then None else jm_get m k')"
  by (induction m) auto

lemma jm_delete_filter: "jm_delete k m = filter (\<lambda>e. fst e \<noteq> k) m"
  by (induction m) auto

lemma jm_get_None_iff: "jm_get m k = None \<longleftrightarrow> k \<notin> set (jm_keys m)"
  by (induction m) (auto simp: jm_keys_def split: if_splits)

lemma jm_get_Some_mem: "jm_get m k = Some v \<Longrightarrow> (k, v) \<in> set m"
  by (induction m) (auto split: if_splits)

lemma jm_keys_set:
  "jm_keys (jm_set k v m) = (if k \<in> set (jm_keys m) then jm_keys m else jm_keys m @ [k])"
  by (induction m) (force simp: jm_keys_def)+

lemma find_in_values:
  "\<exists>u\<in>set xs. P u \<Longrightarrow> \<exists>u. find P xs = Some u \<and> u \<in> set xs \<and> P u"
  by (induction xs) auto

section \<open>Login\<close>

text \<open>
  Claim C9. When no stored user has the given username, login writes the line
  "No user exist", returns \<open>undefined\<close> and leaves the whole store (the authentication
  state and the three collections) as it was.
\<close>

theorem C9_login_unknown_username:
  assumes "\<forall>u\<in>set (jm_values (users st)). username u \<noteq> name"
  shows "loginUser st name password = ([''No user exist''], None, st)"
proof -
  from assms have "find (\<lambda>u. username u = name) (jm_values (users st)) = None"
    by (simp add: find_None_iff)
  then show ?thesis by (simp add: loginUser_def)
qed

theorem C9_witness:
  "\<not> (\<exists>u\<in>set (jm_values (users sample_store)). username u = ''carol'') \<and>
   loginUser sample_store ''carol'' ''pw3'' = ([''No user exist''], None, sample_store)"
  using C9_login_unknown_username [of sample_store "''carol''" "''pw3''"]
  by (simp add: example_defs jm_values_def)

text \<open>
  Claim C4. When some stored user has the given username, login takes the first such
  user in the order of the collection, sets the authentication state to authenticated
  with that user's id and returns the user, whatever the password: when the hash of the
  password differs from the stored one, the only effect is the line
  "Invalid username or password" on the console.
\<close>

theorem C4_login_password_mismatch:
  assumes "\<exists>u\<in>set (jm_values (users st)). username u = name"
  shows "\<exists>u\<in>set (jm_values (users st)).
           username u = name \<and>
           find (\<lambda>u. username u = name) (jm_values (users st)) = Some u \<and>
           loginUser st name password =
             (if verifyPassword password (passwordHash u) then []
              else [''Invalid username or password''],
              Some u,
              st\<lparr>auth := \<lparr>isAuthenticated = True, currentUserId = Some (u_id u)\<rparr>\<rparr>)"
proof -
  from find_in_values [OF assms] obtain u where
    u: "find (\<lambda>u. username u = name) (jm_values (users st)) = Some u"
       "u \<in> set (jm_values (users st))" "username u = name"
    by blast
  from u(1) have "loginUser st name password =
             (if verifyPassword password (passwordHash u) then []
              else [''Invalid username or password''],
              Some u,
              st\<lparr>auth := \<lparr>isAuthenticated = True, currentUserId = Some (u_id u)\<rparr>\<rparr>)"
    by (simp add: loginUser_def)
  with u show ?thesis by blast
qed

theorem C4_witness:
  "(\<exists>u\<in>set (jm_values (users sample_store)). username u = ''alice'') \<and>
   \<not> verifyPassword ''wrong'' (passwordHash alice) \<and>
   loginUser sample_store ''alice'' ''wrong'' =
     ([''Invalid username or password''], Some alice,
      sample_store\<lparr>auth := \<lparr>isAuthenticated = True, currentUserId = Some ''u1''\<rparr>\<rparr>)"
  using C4_login_password_mismatch [of sample_store "''alice''" "''wrong''"]
  by (simp add: example_defs jm_values_def verifyPassword_def hashPassword_def)

section \<open>Join eligibility\<close>

text \<open>
  The part of the ordering contract that the code keeps: an event that is present and
  has started gives "Event has already started", whoever asks and whatever the requests.
\<close>

lemma canJoinEvent_started:
  assumes "jm_get (events st) eid = Some event" and "startTime event \<le> now"
  shows "canJoinEvent st eid uid now =
           \<lparr>canJoin = False, reason = Some ''Event has already started''\<rparr>"
  using assms by (simp add: canJoinEvent_def)

text \<open>
  Claim C5. The fourth condition of the claim is that the user holds no ACCEPTED or
  PENDING request for the event. \<open>canJoinEventAtom\<close> looks only at the first request of
  the user for the event, whatever its status. In \<open>sample_store\<close>, reached by
  \<open>sample_run\<close>, Bob's first request is CANCELLED and his second is PENDING: the check
  answers that he can join, while \<open>createJoinRequestAtom\<close> on the same store refuses
  with "You already have a pending request".
\<close>

theorem C5_canJoin_overlooks_pending_request:
  "run init_store sample_run = sample_store \<and>
   active_requests ''u2'' ''e1'' (requests sample_store) =
     [\<lparr>r_id = ''r2'', userId = ''u2'', eventId = ''e1'', r_createdAt = 6, updatedAt = 6,
       status = PENDING\<rparr>] \<and>
   canJoinEvent sample_store ''e1'' ''u2'' 7 = \<lparr>canJoin = True, reason = None\<rparr> \<and>
   createJoinRequest sample_store ''e1'' ''r3'' 7 = Inl ''You already have a pending request''"
proof -
  have "active_requests ''u2'' ''e1'' (requests sample_store) =
     [\<lparr>r_id = ''r2'', userId = ''u2'', eventId = ''e1'', r_createdAt = 6, updatedAt = 6,
       status = PENDING\<rparr>]"
    by (simp add: active_requests_def example_defs jm_values_def)
  moreover have "canJoinEvent sample_store ''e1'' ''u2'' 7 = \<lparr>canJoin = True, reason = None\<rparr>"
    by (simp add: canJoinEvent_def example_defs jm_values_def acceptedCount_def)
  moreover have "createJoinRequest sample_store ''e1'' ''r3'' 7
                   = Inl ''You already have a pending request''"
    by (simp add: createJoinRequest_def example_defs session_def jm_values_def)
  ultimately show ?thesis using sample_store_reached by simp
qed

section \<open>Accepting a request for a full event\<close>

text \<open>
  Claim C6. When the authenticated organizer of the request's event accepts a PENDING
  request while the number of ACCEPTED requests for that event equals \<open>maxPlayers\<close>,
  the call throws "Event is full", the store is unchanged and the request is still
  PENDING.
\<close>

theorem C6_accept_full_event:
  assumes "session (auth st) = Some uid"
    and "jm_get (requests st) rid = Some request"
    and "jm_get (events st) (eventId request) = Some event"
    and "organizerId event = uid"
    and "status request = PENDING"
    and "acceptedCount (requests st) (eventId request) = maxPlayers event"
  shows "acceptJoinRequest st rid now = Inl ''Event is full'' \<and>
         exec st (AcceptJoinRequest rid now) = st \<and>
         (\<exists>r. jm_get (requests (exec st (AcceptJoinRequest rid now))) rid = Some r \<and>
              status r = PENDING)"
proof -
  from assms have "acceptJoinRequest st rid now = Inl ''Event is full''"
    by (simp add: acceptJoinRequest_def)
  moreover from this have "exec st (AcceptJoinRequest rid now) = st"
    by (simp add: after_def)
  ultimately show ?thesis using assms(2,5) by simp
qed

theorem C6_witness:
  "session (auth club_store) = Some ''u1'' \<and>
   jm_get (requests club_store) ''r2'' = Some carol_singles \<and>
   jm_get (events club_store) (eventId carol_singles) = Some singles \<and>
   organizerId singles = ''u1'' \<and>
   status carol_singles = PENDING \<and>
   acceptedCount (requests club_store) (eventId carol_singles) = maxPlayers singles \<and>
   acceptJoinRequest club_store ''r2'' 10 = Inl ''Event is full'' \<and>
   exec club_store (AcceptJoinRequest ''r2'' 10) = club_store"
proof -
  have h: "session (auth club_store) = Some ''u1''"
    "jm_get (requests club_store) ''r2'' = Some carol_singles"
    "jm_get (events club_store) (eventId carol_singles) = Some singles"
    "organizerId singles = ''u1''"
    "status carol_singles = PENDING"
    "acceptedCount (requests club_store) (eventId carol_singles) = maxPlayers singles"
    by (simp_all add: example_defs session_def acceptedCount_def jm_values_def)
  from C6_accept_full_event [OF h, of 10] h show ?thesis by (simp add: after_def)
qed

section \<open>Updating an event\<close>

text \<open>
  Claim C10. When the caller is authenticated and is the organizer of an event that is
  present, updateEvent succeeds for every \<open>updates\<close> object: it returns the shallow
  merge of the old event with the updates and stores it under the same key, leaving
  the rest of the store as it was. Each of the ten fields of the result is the value
  of the key in \<open>updates\<close> when the key is there and the old field otherwise, \<open>id\<close>
  and \<open>organizerId\<close> included, and nothing is checked on the merged event (neither
  the order of the times nor \<open>maxPlayers\<close>). The keys of \<open>updates\<close> carry values of
  their field's type, as \<open>EventUpdates\<close> has them.
\<close>

theorem C10_update_is_shallow_merge:
  assumes "session (auth st) = Some uid"
    and "jm_get (events st) eid = Some event"
    and "organizerId event = uid"
  shows "\<exists>ev. updateEvent st eid updates =
                Inr (ev, st\<lparr>events := jm_set eid ev (events st)\<rparr>) \<and>
              exec st (UpdateEvent eid updates) = st\<lparr>events := jm_set eid ev (events st)\<rparr> \<and>
              jm_get (events (exec st (UpdateEvent eid updates))) eid = Some ev \<and>
              ev = \<lparr>e_id = (case upd_id updates of None \<Rightarrow> e_id event | Some v \<Rightarrow> v),
                    title = (case upd_title updates of None \<Rightarrow> title event | Some v \<Rightarrow> v),
                    sport = (case upd_sport updates of None \<Rightarrow> sport event | Some v \<Rightarrow> v),
                    endTime =
                      (case upd_endTime updates of None \<Rightarrow> endTime event | Some v \<Rightarrow> v),
                    location =
                      (case upd_location updates of None \<Rightarrow> location event | Some v \<Rightarrow> v),
                    startTime =
                      (case upd_startTime updates of None \<Rightarrow> startTime event | Some v \<Rightarrow> v),
                    e_createdAt =
                      (case upd_createdAt updates of None \<Rightarrow> e_createdAt event
                       | Some v \<Rightarrow> v),
                    maxPlayers =
                      (case upd_maxPlayers updates of None \<Rightarrow> maxPlayers event
                       | Some v \<Rightarrow> v),
                    description =
                      (case upd_description updates of None \<Rightarrow> description event
                       | Some v \<Rightarrow> v),
                    organizerId =
                      (case upd_organizerId updates of None \<Rightarrow> organizerId event
                       | Some v \<Rightarrow> v)\<rparr> \<and>
              ev = merge_event event updates"
proof -
  let ?ev = "merge_event event updates"
  have res: "updateEvent st eid updates =
               Inr (?ev, st\<lparr>events := jm_set eid ?ev (events st)\<rparr>)"
    using assms by (simp add: updateEvent_def Let_def)
  then have ex: "exec st (UpdateEvent eid updates) = st\<lparr>events := jm_set eid ?ev (events st)\<rparr>"
    by (simp add: after_def)
  then have get: "jm_get (events (exec st (UpdateEvent eid updates))) eid = Some ?ev"
    by (simp add: jm_get_set)
  have fields: "?ev =
      \<lparr>e_id = (case upd_id updates of None \<Rightarrow> e_id event | Some v \<Rightarrow> v),
       title = (case upd_title updates of None \<Rightarrow> title event | Some v \<Rightarrow> v),
       sport = (case upd_sport updates of None \<Rightarrow> sport event | Some v \<Rightarrow> v),
       endTime = (case upd_endTime updates of None \<Rightarrow> endTime event | Some v \<Rightarrow> v),
       location = (case upd_location updates of None \<Rightarrow> location event | Some v \<Rightarrow> v),
       startTime = (case upd_startTime updates of None \<Rightarrow> startTime event | Some v \<Rightarrow> v),
       e_createdAt =
         (case upd_createdAt updates of None \<Rightarrow> e_createdAt event | Some v \<Rightarrow> v),
       maxPlayers =
         (case upd_maxPlayers updates of None \<Rightarrow> maxPlayers event | Some v \<Rightarrow> v),
       description =
         (case upd_description updates of None \<Rightarrow> description event | Some v \<Rightarrow> v),
       organizerId =
         (case upd_organizerId updates of None \<Rightarrow> organizerId event | Some v \<Rightarrow> v)\<rparr>"
    by (simp add: merge_event_def spread_def)
  from res ex get fields show ?thesis by blast
qed

theorem C10_witness:
  "session (auth club_store) = Some ''u1'' \<and>
   jm_get (events club_store) ''e1'' = Some singles \<and>
   organizerId singles = ''u1'' \<and>
   updateEvent club_store ''e1''
       (no_updates\<lparr>upd_id := Some ''e9'', upd_organizerId := Some ''u3'',
                   upd_endTime := Some 50, upd_maxPlayers := Some 0,
                   upd_title := Some ''Mixed'', upd_createdAt := Some 0\<rparr>) =
     Inr (singles\<lparr>e_id := ''e9'', organizerId := ''u3'', endTime := 50, maxPlayers := 0,
                  title := ''Mixed'', e_createdAt := 0\<rparr>,
          club_store\<lparr>events :=
            [(''e1'', singles\<lparr>e_id := ''e9'', organizerId := ''u3'', endTime := 50,
                              maxPlayers := 0, title := ''Mixed'', e_createdAt := 0\<rparr>),
             (''e2'', doubles)]\<rparr>)"
proof -
  have h: "session (auth club_store) = Some ''u1''"
    "jm_get (events club_store) ''e1'' = Some singles"
    "organizerId singles = ''u1''"
    by (simp_all add: example_defs session_def)
  from C10_update_is_shallow_merge [OF h,
      of "no_updates\<lparr>upd_id := Some ''e9'', upd_organizerId := Some ''u3'',
                      upd_endTime := Some 50, upd_maxPlayers := Some 0,
                      upd_title := Some ''Mixed'', upd_createdAt := Some 0\<rparr>"] h
  show ?thesis by (auto simp: example_defs)
qed

section \<open>Deleting an event\<close>

lemma fold_delete_step:
  "fold (delete_step eid) xs acc =
     filter (\<lambda>e. fst e \<notin> fst ` {x \<in> set xs. eventId (snd x) = eid}) acc"
proof (induction xs arbitrary: acc)
  case Nil
  then show ?case by simp
next
  case (Cons x xs)
  show ?case
  proof (cases "eventId (snd x) = eid")
    case True
    have "fold (delete_step eid) (x # xs) acc = fold (delete_step eid) xs (jm_delete (fst x) acc)"
      using True by (simp add: delete_step_def)
    also have "\<dots> = filter (\<lambda>e. fst e \<notin> fst ` {x \<in> set xs. eventId (snd x) = eid})
                       (filter (\<lambda>e. fst e \<noteq> fst x) acc)"
      by (simp add: Cons.IH jm_delete_filter)
    also have "\<dots> = filter (\<lambda>e. fst e \<notin> fst ` {y \<in> set (x # xs). eventId (snd y) = eid}) acc"
      using True by (auto intro!: filter_cong)
    finally show ?thesis .
  next
    case False
    have "fold (delete_step eid) (x # xs) acc = fold (delete_step eid) xs acc"
      using False by (simp add: delete_step_def)
    also have "\<dots> = filter (\<lambda>e. fst e \<notin> fst ` {y \<in> set (x # xs). eventId (snd y) = eid}) acc"
      using False by (auto simp: Cons.IH intro!: filter_cong)
    finally show ?thesis .
  qed
qed

lemma delete_requests_filter:
  assumes "distinct (jm_keys rs)"
  shows "fold (delete_step eid) rs rs = filter (\<lambda>e. eventId (snd e) \<noteq> eid) rs"
proof -
  have "\<And>e. e \<in> set rs \<Longrightarrow>
          (fst e \<notin> fst ` {x \<in> set rs. eventId (snd x) = eid}) = (eventId (snd e) \<noteq> eid)"
  proof -
    fix e assume e: "e \<in> set rs"
    have "inj_on fst (set rs)" using assms by (simp add: jm_keys_def distinct_map)
    with e show "(fst e \<notin> fst ` {x \<in> set rs. eventId (snd x) = eid}) = (eventId (snd e) \<noteq> eid)"
      by (auto dest: inj_onD)
  qed
  then show ?thesis by (simp add: fold_delete_step cong: filter_cong)
qed

lemma delete_requests_none_left:
  "r \<in> set (jm_values (fold (delete_step eid) rs rs)) \<Longrightarrow> eventId r \<noteq> eid"
  by (force simp: fold_delete_step jm_values_def)

lemma jm_get_of_distinct:
  "distinct (jm_keys m) \<Longrightarrow> (k, v) \<in> set m \<Longrightarrow> jm_get m k = Some v"
  by (induction m) (auto simp: jm_keys_def rev_image_eqI)

lemma jm_get_filter_keys:
  "jm_get (filter (\<lambda>e. fst e \<notin> K) m) k = (if k \<in> K then None else jm_get m k)"
  by (induction m) auto

lemma jm_get_filter_keep:
  "distinct (jm_keys m) \<Longrightarrow> jm_get m k = Some v \<Longrightarrow> Q (k, v)
     \<Longrightarrow> jm_get (filter Q m) k = Some v"
proof (induction m)
  case Nil
  then show ?case by simp
next
  case (Cons x m)
  obtain k0 v0 where x: "x = (k0, v0)" by (cases x)
  show ?case
  proof (cases "k0 = k")
    case True
    with Cons.prems x show ?thesis by simp
  next
    case False
    with Cons.prems x have "jm_get (filter Q m) k = Some v"
      by (intro Cons.IH) (auto simp: jm_keys_def)
    with False x show ?thesis by simp
  qed
qed

text \<open>
  Claim C7. When the caller is authenticated and is the organizer of an event that is
  present, deleteEvent succeeds. Afterwards the Events collection has no entry under
  that id, and no event whose \<open>id\<close> field is that id when every event is stored under
  its own id; no request in Requests has that \<open>eventId\<close>; every other entry of Events
  and every request for another event is retained unchanged, in its place; Users and
  the authentication state are untouched. The keys of Requests are pairwise distinct,
  as the keys of a \<open>Map\<close> are.
\<close>

theorem C7_deleteEvent_cascade:
  assumes "session (auth st) = Some uid"
    and "jm_get (events st) eid = Some event"
    and "organizerId event = uid"
    and "distinct (jm_keys (requests st))"
  shows "\<exists>st'. deleteEvent st eid = Inr st' \<and>
           jm_get (events st') eid = None \<and>
           ((\<forall>e\<in>set (events st). e_id (snd e) = fst e)
              \<longrightarrow> (\<forall>ev\<in>set (jm_values (events st')). e_id ev \<noteq> eid)) \<and>
           (\<forall>r\<in>set (jm_values (requests st')). eventId r \<noteq> eid) \<and>
           (\<forall>k. k \<noteq> eid \<longrightarrow> jm_get (events st') k = jm_get (events st) k) \<and>
           (\<forall>rid r. jm_get (requests st) rid = Some r \<and> eventId r \<noteq> eid
              \<longrightarrow> jm_get (requests st') rid = Some r) \<and>
           events st' = filter (\<lambda>e. fst e \<noteq> eid) (events st) \<and>
           requests st' = filter (\<lambda>e. eventId (snd e) \<noteq> eid) (requests st) \<and>
           users st' = users st \<and> auth st' = auth st"
proof -
  define st' where
    "st' = st\<lparr>events := jm_delete eid (events st),
              requests := fold (delete_step eid) (requests st) (requests st)\<rparr>"
  have ok: "deleteEvent st eid = Inr st'"
    using assms(1-3) by (simp add: deleteEvent_def st'_def)
  have ev: "events st' = filter (\<lambda>e. fst e \<noteq> eid) (events st)"
    by (simp add: st'_def jm_delete_filter)
  have rq: "requests st' = filter (\<lambda>e. eventId (snd e) \<noteq> eid) (requests st)"
    using assms(4) by (simp add: st'_def delete_requests_filter)
  have gone: "jm_get (events st') eid = None"
    by (simp add: st'_def jm_get_delete)
  have ids: "(\<forall>e\<in>set (events st). e_id (snd e) = fst e)
              \<longrightarrow> (\<forall>ev\<in>set (jm_values (events st')). e_id ev \<noteq> eid)"
    by (auto simp: ev jm_values_def)
  have none: "\<forall>r\<in>set (jm_values (requests st')). eventId r \<noteq> eid"
    by (auto simp: rq jm_values_def)
  have others: "\<forall>k. k \<noteq> eid \<longrightarrow> jm_get (events st') k = jm_get (events st) k"
    by (simp add: st'_def jm_get_delete)
  have kept: "\<forall>rid r. jm_get (requests st) rid = Some r \<and> eventId r \<noteq> eid
              \<longrightarrow> jm_get (requests st') rid = Some r"
    using assms(4) by (auto simp: rq intro: jm_get_filter_keep)
  have rest: "users st' = users st \<and> auth st' = auth st"
    by (simp add: st'_def)
  from ok gone ids none others kept ev rq rest show ?thesis by blast
qed

theorem C7_witness:
  "session (auth club_store) = Some ''u1'' \<and>
   jm_get (events club_store) ''e1'' = Some singles \<and>
   organizerId singles = ''u1'' \<and>
   distinct (jm_keys (requests club_store)) \<and>
   deleteEvent club_store ''e1'' =
     Inr (club_store\<lparr>events := [(''e2'', doubles)], requests := [(''r3'', carol_doubles)]\<rparr>)"
proof -
  have h: "session (auth club_store) = Some ''u1''"
    "jm_get (events club_store) ''e1'' = Some singles"
    "organizerId singles = ''u1''"
    "distinct (jm_keys (requests club_store))"
    by (simp_all add: example_defs session_def jm_keys_def)
  from C7_deleteEvent_cascade [OF h] obtain st' where
    st': "deleteEvent club_store ''e1'' = Inr st'"
      "events st' = filter (\<lambda>e. fst e \<noteq> ''e1'') (events club_store)"
      "requests st' = filter (\<lambda>e. eventId (snd e) \<noteq> ''e1'') (requests club_store)"
      "users st' = users club_store" "auth st' = auth club_store"
    by blast
  have "st' = club_store\<lparr>events := [(''e2'', doubles)], requests := [(''r3'', carol_doubles)]\<rparr>"
    using st'(2-5) by (simp add: example_defs)
  with st'(1) h show ?thesis by simp
qed

section \<open>The expiry sweep\<close>

lemma expire_step_eq:
  "expire_step evs now entry acc =
     (if should_expire evs now (snd entry)
      then (jm_set (fst entry) (expired now (snd entry)) (fst acc), snd acc + 1)
      else acc)"
  by (simp add: expire_step_def should_expire_def expired_def split: option.splits)

lemma expired_differs: "should_expire evs now r \<Longrightarrow> expired now r \<noteq> r"
proof
  assume "should_expire evs now r" and "expired now r = r"
  then have "status (expired now r) = PENDING" by (simp add: should_expire_def)
  then show False by (simp add: expired_def)
qed

lemma fold_expire_count:
  "snd (fold (expire_step evs now) xs acc)
     = snd acc + length (filter (should_expire evs now) (jm_values xs))"
  by (induction xs arbitrary: acc) (auto simp: expire_step_eq jm_values_def)

lemma fold_expire_get:
  "distinct (jm_keys xs) \<Longrightarrow>
   jm_get (fst (fold (expire_step evs now) xs acc)) k =
     (case jm_get xs k of
        None \<Rightarrow> jm_get (fst acc) k
      | Some r \<Rightarrow> if should_expire evs now r then Some (expired now r) else jm_get (fst acc) k)"
proof (induction xs arbitrary: acc)
  case Nil
  then show ?case by simp
next
  case (Cons x xs)
  obtain k0 r0 where x: "x = (k0, r0)" by (cases x)
  from Cons.prems x have d: "distinct (jm_keys xs)" and n: "jm_get xs k0 = None"
    by (auto simp: jm_keys_def jm_get_None_iff)
  show ?case
    using Cons.IH [OF d] n x by (auto simp: expire_step_eq jm_get_set split: option.splits)
qed

lemma fold_expire_keys:
  "set (jm_keys xs) \<subseteq> set (jm_keys (fst acc)) \<Longrightarrow>
   jm_keys (fst (fold (expire_step evs now) xs acc)) = jm_keys (fst acc)"
proof (induction xs arbitrary: acc)
  case Nil
  then show ?case by simp
next
  case (Cons x xs)
  let ?acc' = "expire_step evs now x acc"
  from Cons.prems have "fst x \<in> set (jm_keys (fst acc))"
    by (simp add: jm_keys_def)
  then have k: "jm_keys (fst ?acc') = jm_keys (fst acc)"
    by (simp add: expire_step_eq jm_keys_set)
  with Cons.prems have "set (jm_keys xs) \<subseteq> set (jm_keys (fst ?acc'))"
    by (simp add: jm_keys_def)
  from Cons.IH [OF this] k show ?case by simp
qed

lemma expire_count:
  "fst (expirePendingRequests st now)
     = length (filter (should_expire (events st) now) (jm_values (requests st)))"
  by (simp add: expirePendingRequests_def Let_def fold_expire_count)

lemma expire_frame:
  "users (snd (expirePendingRequests st now)) = users st \<and>
   events (snd (expirePendingRequests st now)) = events st \<and>
   auth (snd (expirePendingRequests st now)) = auth st"
  by (simp add: expirePendingRequests_def Let_def)

lemma expire_keys:
  "jm_keys (requests (snd (expirePendingRequests st now))) = jm_keys (requests st)"
  by (simp add: expirePendingRequests_def Let_def fold_expire_keys)

lemma expire_get:
  assumes "distinct (jm_keys (requests st))"
  shows "jm_get (requests (snd (expirePendingRequests st now))) k =
           (case jm_get (requests st) k of
              None \<Rightarrow> None
            | Some r \<Rightarrow> if should_expire (events st) now r then Some (expired now r) else Some r)"
proof (cases "snd (fold (expire_step (events st) now) (requests st) (requests st, 0)) > 0")
  case True
  then have "requests (snd (expirePendingRequests st now))
               = fst (fold (expire_step (events st) now) (requests st) (requests st, 0))"
    by (simp add: expirePendingRequests_def Let_def)
  then show ?thesis
    by (simp add: fold_expire_get [OF assms] split: option.splits)
next
  case False
  then have same: "requests (snd (expirePendingRequests st now)) = requests st"
    by (simp add: expirePendingRequests_def Let_def)
  from False have "filter (should_expire (events st) now) (jm_values (requests st)) = []"
    by (simp add: fold_expire_count)
  then have no: "\<forall>r\<in>set (jm_values (requests st)). \<not> should_expire (events st) now r"
    by (simp add: filter_empty_conv)
  show ?thesis
  proof (cases "jm_get (requests st) k")
    case None
    with same show ?thesis by simp
  next
    case (Some r)
    then have "r \<in> set (jm_values (requests st))"
      by (force simp: jm_values_def dest: jm_get_Some_mem)
    with no Some same show ?thesis by simp
  qed
qed

text \<open>
  Claim C8. After the sweep at time \<open>now\<close>, every request that was PENDING and whose
  event is present with \<open>startTime \<le> now\<close> is EXPIRED with \<open>updatedAt = now\<close> and is
  otherwise as it was; every request that was ACCEPTED, REJECTED, CANCELLED or EXPIRED,
  and every other request that the loop's condition does not select, is unchanged; no
  request is added or removed; the returned number is the number of requests the sweep
  expired. The keys of Requests are pairwise distinct, as the keys of a \<open>Map\<close> are.
\<close>

theorem C8_expire_sweep:
  assumes "distinct (jm_keys (requests st))"
  shows "(\<forall>rid r ev. jm_get (requests st) rid = Some r \<and> status r = PENDING \<and>
                      jm_get (events st) (eventId r) = Some ev \<and> startTime ev \<le> now
            \<longrightarrow> jm_get (requests (snd (expirePendingRequests st now))) rid
                  = Some (r\<lparr>status := EXPIRED, updatedAt := now\<rparr>)) \<and>
         (\<forall>rid r. jm_get (requests st) rid = Some r \<and> status r \<noteq> PENDING
            \<longrightarrow> jm_get (requests (snd (expirePendingRequests st now))) rid = Some r) \<and>
         (\<forall>rid r. jm_get (requests st) rid = Some r \<and> \<not> should_expire (events st) now r
            \<longrightarrow> jm_get (requests (snd (expirePendingRequests st now))) rid = Some r) \<and>
         jm_keys (requests (snd (expirePendingRequests st now))) = jm_keys (requests st) \<and>
         fst (expirePendingRequests st now)
           = length (filter (should_expire (events st) now) (jm_values (requests st))) \<and>
         fst (expirePendingRequests st now)
           = length (filter (\<lambda>k. jm_get (requests (snd (expirePendingRequests st now))) k
                                  \<noteq> jm_get (requests st) k) (jm_keys (requests st)))"
proof -
  let ?st' = "snd (expirePendingRequests st now)"
  note get = expire_get [OF assms, of now]
  have a: "\<forall>rid r ev. jm_get (requests st) rid = Some r \<and> status r = PENDING \<and>
                      jm_get (events st) (eventId r) = Some ev \<and> startTime ev \<le> now
            \<longrightarrow> jm_get (requests ?st') rid = Some (r\<lparr>status := EXPIRED, updatedAt := now\<rparr>)"
    by (simp add: get should_expire_def expired_def)
  have c: "\<forall>rid r. jm_get (requests st) rid = Some r \<and> \<not> should_expire (events st) now r
            \<longrightarrow> jm_get (requests ?st') rid = Some r"
    by (simp add: get)
  have b: "\<forall>rid r. jm_get (requests st) rid = Some r \<and> status r \<noteq> PENDING
            \<longrightarrow> jm_get (requests ?st') rid = Some r"
    using c by (simp add: should_expire_def)
  have changed: "\<And>e. e \<in> set (requests st) \<Longrightarrow>
          (jm_get (requests ?st') (fst e) \<noteq> jm_get (requests st) (fst e))
            = should_expire (events st) now (snd e)"
  proof -
    fix e assume e: "e \<in> set (requests st)"
    have "jm_get (requests st) (fst e) = Some (snd e)"
      using assms e jm_get_of_distinct [of "requests st" "fst e" "snd e"] by simp
    then show "(jm_get (requests ?st') (fst e) \<noteq> jm_get (requests st) (fst e))
            = should_expire (events st) now (snd e)"
      by (simp add: get expired_differs)
  qed
  have "length (filter (\<lambda>k. jm_get (requests ?st') k \<noteq> jm_get (requests st) k)
                  (jm_keys (requests st)))
        = length (filter (\<lambda>e. jm_get (requests ?st') (fst e) \<noteq> jm_get (requests st) (fst e))
                    (requests st))"
    by (simp add: jm_keys_def filter_map comp_def)
  also have "\<dots> = length (filter (\<lambda>e. should_expire (events st) now (snd e)) (requests st))"
    using changed by (simp cong: filter_cong)
  also have "\<dots> = length (filter (should_expire (events st) now) (jm_values (requests st)))"
    by (simp add: jm_values_def filter_map comp_def)
  finally have d: "fst (expirePendingRequests st now)
           = length (filter (\<lambda>k. jm_get (requests ?st') k \<noteq> jm_get (requests st) k)
                       (jm_keys (requests st)))"
    by (simp add: expire_count)
  from a b c d expire_keys [of st now] expire_count [of st now] show ?thesis by blast
qed

theorem C8_witness:
  "distinct (jm_keys (requests club_store)) \<and>
   expirePendingRequests club_store 150 =
     (1, club_store\<lparr>requests :=
           [(''r1'', bob_singles),
            (''r2'', carol_singles\<lparr>status := EXPIRED, updatedAt := 150\<rparr>),
            (''r3'', carol_doubles)]\<rparr>) \<and>
   jm_get (requests (snd (expirePendingRequests club_store 150))) ''r2''
     = Some (carol_singles\<lparr>status := EXPIRED, updatedAt := 150\<rparr>) \<and>
   jm_get (requests (snd (expirePendingRequests club_store 150))) ''r1'' = Some bob_singles"
proof -
  have h: "distinct (jm_keys (requests club_store))"
    by (simp add: example_defs jm_keys_def)
  have run: "expirePendingRequests club_store 150 =
     (1, club_store\<lparr>requests :=
           [(''r1'', bob_singles),
            (''r2'', carol_singles\<lparr>status := EXPIRED, updatedAt := 150\<rparr>),
            (''r3'', carol_doubles)]\<rparr>)"
    by (simp add: expirePendingRequests_def expire_step_def example_defs Let_def)
  have p: "jm_get (requests club_store) ''r2'' = Some carol_singles \<and>
           status carol_singles = PENDING \<and>
           jm_get (events club_store) (eventId carol_singles) = Some singles \<and>
           startTime singles \<le> 150"
    and q: "jm_get (requests club_store) ''r1'' = Some bob_singles \<and>
            status bob_singles \<noteq> PENDING"
    by (simp_all add: example_defs)
  from C8_expire_sweep [OF h, of 150] p q
  have "jm_get (requests (snd (expirePendingRequests club_store 150))) ''r2''
          = Some (carol_singles\<lparr>status := EXPIRED, updatedAt := 150\<rparr>)"
    and "jm_get (requests (snd (expirePendingRequests club_store 150))) ''r1''
          = Some bob_singles"
    by blast+
  with h run show ?thesis by simp
qed

section \<open>At most one active request for a user and an event\<close>

lemma count_jm_set_le:
  "length (filter P (jm_values (jm_set k v m)))
     \<le> length (filter P (jm_values m)) + (if P v then 1 else 0)"
  by (induction m) (auto simp: jm_values_def)

lemma count_jm_set_replace:
  "jm_get m k = Some old \<Longrightarrow>
   length (filter P (jm_values (jm_set k v m))) + (if P old then 1 else 0)
     = length (filter P (jm_values m)) + (if P v then 1 else 0)"
  by (induction m) (auto simp: jm_values_def)

lemma count_filter_le:
  "length (filter P (jm_values (filter Q m))) \<le> length (filter P (jm_values m))"
  by (induction m) (auto simp: jm_values_def)

lemma one_active_set_inactive:
  assumes "one_active_per_pair m" and "status v \<noteq> PENDING" and "status v \<noteq> ACCEPTED"
  shows "one_active_per_pair (jm_set k v m)"
  unfolding one_active_per_pair_def active_requests_def
proof (intro allI)
  fix uid eid
  let ?P = "\<lambda>req. eventId req = eid \<and> userId req = uid \<and>
                  (status req = PENDING \<or> status req = ACCEPTED)"
  have "length (filter ?P (jm_values (jm_set k v m))) \<le> length (filter ?P (jm_values m))"
    using count_jm_set_le [of ?P k v m] assms(2,3) by simp
  also have "\<dots> \<le> 1"
    using assms(1) by (simp add: one_active_per_pair_def active_requests_def)
  finally show "length (filter ?P (jm_values (jm_set k v m))) \<le> 1" .
qed

lemma one_active_accept:
  assumes "one_active_per_pair m" and "jm_get m k = Some r" and "status r = PENDING"
  shows "one_active_per_pair (jm_set k (r\<lparr>status := ACCEPTED, updatedAt := now\<rparr>) m)"
  unfolding one_active_per_pair_def active_requests_def
proof (intro allI)
  fix uid eid
  let ?P = "\<lambda>req. eventId req = eid \<and> userId req = uid \<and>
                  (status req = PENDING \<or> status req = ACCEPTED)"
  let ?v = "r\<lparr>status := ACCEPTED, updatedAt := now\<rparr>"
  have "?P ?v = ?P r" using assms(3) by simp
  with count_jm_set_replace [OF assms(2), of ?P ?v]
  have "length (filter ?P (jm_values (jm_set k ?v m))) = length (filter ?P (jm_values m))"
    by (simp split: if_splits)
  also have "\<dots> \<le> 1"
    using assms(1) by (simp add: one_active_per_pair_def active_requests_def)
  finally show "length (filter ?P (jm_values (jm_set k ?v m))) \<le> 1" .
qed

lemma one_active_create:
  assumes "one_active_per_pair m"
    and "find (\<lambda>req. eventId req = e \<and> userId req = u \<and>
                      (status req = PENDING \<or> status req = ACCEPTED)) (jm_values m) = None"
    and "userId v = u" and "eventId v = e"
  shows "one_active_per_pair (jm_set k v m)"
  unfolding one_active_per_pair_def active_requests_def
proof (intro allI)
  fix uid eid
  let ?P = "\<lambda>req. eventId req = eid \<and> userId req = uid \<and>
                  (status req = PENDING \<or> status req = ACCEPTED)"
  have le: "length (filter ?P (jm_values (jm_set k v m)))
              \<le> length (filter ?P (jm_values m)) + (if ?P v then 1 else 0)"
    by (rule count_jm_set_le)
  have old: "length (filter ?P (jm_values m)) \<le> 1"
    using assms(1) by (simp add: one_active_per_pair_def active_requests_def)
  show "length (filter ?P (jm_values (jm_set k v m))) \<le> 1"
  proof (cases "?P v")
    case True
    with assms(3,4) have "uid = u" "eid = e" by auto
    with assms(2) have "filter ?P (jm_values m) = []"
      by (simp add: find_None_iff filter_empty_conv)
    with le True show ?thesis by simp
  next
    case False
    with le old show ?thesis by simp
  qed
qed

lemma one_active_filter:
  assumes "one_active_per_pair m"
  shows "one_active_per_pair (filter Q m)"
  unfolding one_active_per_pair_def active_requests_def
proof (intro allI)
  fix uid eid
  let ?P = "\<lambda>req. eventId req = eid \<and> userId req = uid \<and>
                  (status req = PENDING \<or> status req = ACCEPTED)"
  have "length (filter ?P (jm_values (filter Q m))) \<le> length (filter ?P (jm_values m))"
    by (rule count_filter_le)
  also have "\<dots> \<le> 1"
    using assms by (simp add: one_active_per_pair_def active_requests_def)
  finally show "length (filter ?P (jm_values (filter Q m))) \<le> 1" .
qed

lemma fold_expire_count_le:
  assumes "\<And>v. status v = EXPIRED \<Longrightarrow> \<not> P v"
  shows "length (filter P (jm_values (fst (fold (expire_step evs now) xs acc))))
           \<le> length (filter P (jm_values (fst acc)))"
proof (induction xs arbitrary: acc)
  case Nil
  then show ?case by simp
next
  case (Cons x xs)
  have "\<not> P (expired now (snd x))"
    by (rule assms) (simp add: expired_def)
  then have "length (filter P (jm_values (fst (expire_step evs now x acc))))
          \<le> length (filter P (jm_values (fst acc)))"
    using count_jm_set_le [of P "fst x" "expired now (snd x)" "fst acc"]
    by (simp add: expire_step_eq)
  with Cons.IH [of "expire_step evs now x acc"] show ?case by simp
qed

lemma one_active_expire:
  assumes "one_active_per_pair (requests st)"
  shows "one_active_per_pair (requests (snd (expirePendingRequests st now)))"
proof (cases "snd (fold (expire_step (events st) now) (requests st) (requests st, 0)) > 0")
  case True
  then have eq: "requests (snd (expirePendingRequests st now))
               = fst (fold (expire_step (events st) now) (requests st) (requests st, 0))"
    by (simp add: expirePendingRequests_def Let_def)
  show ?thesis
    unfolding one_active_per_pair_def active_requests_def eq
  proof (intro allI)
    fix uid eid
    let ?P = "\<lambda>req. eventId req = eid \<and> userId req = uid \<and>
                    (status req = PENDING \<or> status req = ACCEPTED)"
    have "length (filter ?P (jm_values
              (fst (fold (expire_step (events st) now) (requests st) (requests st, 0)))))
            \<le> length (filter ?P (jm_values (fst (requests st, 0::nat))))"
      by (rule fold_expire_count_le) simp
    also have "\<dots> \<le> 1"
      using assms by (simp add: one_active_per_pair_def active_requests_def)
    finally show "length (filter ?P (jm_values
              (fst (fold (expire_step (events st) now) (requests st) (requests st, 0))))) \<le> 1" .
  qed
next
  case False
  then have "requests (snd (expirePendingRequests st now)) = requests st"
    by (simp add: expirePendingRequests_def Let_def)
  with assms show ?thesis by simp
qed

lemma one_active_createJoinRequest:
  assumes "one_active_per_pair (requests st)"
  shows "one_active_per_pair (requests (after st (createJoinRequest st eid newId now)))"
proof (cases "createJoinRequest st eid newId now")
  case (Inl msg)
  with assms show ?thesis by (simp add: after_def)
next
  case (Inr p)
  then obtain uid where
    none: "find (\<lambda>req. eventId req = eid \<and> userId req = uid \<and>
                      (status req = PENDING \<or> status req = ACCEPTED))
                (jm_values (requests st)) = None"
    and st': "snd p = st\<lparr>requests := jm_set newId
                 \<lparr>r_id = newId, userId = uid, eventId = eid, r_createdAt = now,
                  updatedAt = now, status = PENDING\<rparr> (requests st)\<rparr>"
    by (auto simp: createJoinRequest_def Let_def split: option.splits if_splits)
  from one_active_create [OF assms none] Inr st' show ?thesis
    by (simp add: after_def)
qed

lemma one_active_acceptJoinRequest:
  assumes "one_active_per_pair (requests st)"
  shows "one_active_per_pair (requests (after st (acceptJoinRequest st rid now)))"
proof (cases "acceptJoinRequest st rid now")
  case (Inl msg)
  with assms show ?thesis by (simp add: after_def)
next
  case (Inr p)
  then obtain r where "jm_get (requests st) rid = Some r" "status r = PENDING"
    "snd p = st\<lparr>requests := jm_set rid (r\<lparr>status := ACCEPTED, updatedAt := now\<rparr>) (requests st)\<rparr>"
    by (auto simp: acceptJoinRequest_def Let_def split: option.splits if_splits)
  with one_active_accept [OF assms, of rid r now] Inr show ?thesis
    by (simp add: after_def)
qed

lemma one_active_rejectJoinRequest:
  assumes "one_active_per_pair (requests st)"
  shows "one_active_per_pair (requests (after st (rejectJoinRequest st rid now)))"
proof (cases "rejectJoinRequest st rid now")
  case (Inl msg)
  with assms show ?thesis by (simp add: after_def)
next
  case (Inr p)
  then obtain r where
    "snd p = st\<lparr>requests := jm_set rid (r\<lparr>status := REJECTED, updatedAt := now\<rparr>) (requests st)\<rparr>"
    by (auto simp: rejectJoinRequest_def Let_def split: option.splits if_splits)
  with one_active_set_inactive [OF assms, of "r\<lparr>status := REJECTED, updatedAt := now\<rparr>" rid]
    Inr show ?thesis
    by (simp add: after_def)
qed

lemma one_active_cancelJoinRequest:
  assumes "one_active_per_pair (requests st)"
  shows "one_active_per_pair (requests (after st (cancelJoinRequest st rid now now')))"
proof (cases "cancelJoinRequest st rid now now'")
  case (Inl msg)
  with assms show ?thesis by (simp add: after_def)
next
  case (Inr p)
  then obtain r where
    "snd p = st\<lparr>requests := jm_set rid (r\<lparr>status := CANCELLED, updatedAt := now'\<rparr>) (requests st)\<rparr>"
    by (auto simp: cancelJoinRequest_def Let_def split: option.splits if_splits)
  with one_active_set_inactive [OF assms, of "r\<lparr>status := CANCELLED, updatedAt := now'\<rparr>" rid]
    Inr show ?thesis
    by (simp add: after_def)
qed

lemma one_active_deleteEvent:
  assumes "one_active_per_pair (requests st)"
  shows "one_active_per_pair (requests (case deleteEvent st eid of Inl _ \<Rightarrow> st | Inr st' \<Rightarrow> st'))"
proof (cases "deleteEvent st eid")
  case (Inl msg)
  with assms show ?thesis by simp
next
  case (Inr st')
  then have "requests st' = fold (delete_step eid) (requests st) (requests st)"
    by (auto simp: deleteEvent_def split: option.splits if_splits)
  with one_active_filter [OF assms] Inr show ?thesis
    by (simp add: fold_delete_step)
qed

lemma requests_createEvent:
  "requests (after st (createEvent st eventData newId now)) = requests st"
  by (simp add: createEvent_def after_def Let_def split: option.splits)

lemma requests_updateEvent:
  "requests (after st (updateEvent st eid updates)) = requests st"
  by (simp add: updateEvent_def after_def Let_def split: option.splits)

lemma requests_registerUser:
  "requests (snd (snd (registerUser st name password newId now))) = requests st"
  by (simp add: registerUser_def Let_def)

lemma requests_loginUser:
  "requests (snd (snd (loginUser st name password))) = requests st"
  by (simp add: loginUser_def split: option.splits)

lemma one_active_empty: "one_active_per_pair []"
  by (simp add: one_active_per_pair_def active_requests_def jm_values_def)

lemma one_active_exec:
  assumes "one_active_per_pair (requests st)"
  shows "one_active_per_pair (requests (exec st a))"
proof (cases a)
  case (Register name password newId now)
  with assms show ?thesis by (simp add: requests_registerUser)
next
  case (Login name password)
  with assms show ?thesis by (simp add: requests_loginUser)
next
  case Logout
  with assms show ?thesis by (simp add: logoutUser_def)
next
  case ClearAllData
  then show ?thesis by (simp add: clearAllData_def one_active_empty)
next
  case (CreateEvent eventData newId now)
  with assms show ?thesis by (simp add: requests_createEvent)
next
  case (UpdateEvent eid updates)
  with assms show ?thesis by (simp add: requests_updateEvent)
next
  case (DeleteEvent eid)
  with one_active_deleteEvent [OF assms] show ?thesis by simp
next
  case (CreateJoinRequest eid newId now)
  with one_active_createJoinRequest [OF assms] show ?thesis by simp
next
  case (AcceptJoinRequest rid now)
  with one_active_acceptJoinRequest [OF assms] show ?thesis by simp
next
  case (RejectJoinRequest rid now)
  with one_active_rejectJoinRequest [OF assms] show ?thesis by simp
next
  case (CancelJoinRequest rid now now')
  with one_active_cancelJoinRequest [OF assms] show ?thesis by simp
next
  case (ExpirePendingRequests now)
  with one_active_expire [OF assms] show ?thesis by simp
qed

lemma one_active_run:
  "one_active_per_pair (requests st) \<Longrightarrow> one_active_per_pair (requests (run st acts))"
  by (induction acts arbitrary: st) (simp_all add: run_def one_active_exec)

text \<open>
  Claim C2. A reachable state is the store after a list of calls of the write atoms,
  started on the empty store. In every reachable state, for every user and event at
  most one request of that user for that event is PENDING or ACCEPTED; and every call
  (createJoinRequest, acceptJoinRequest, rejectJoinRequest, cancelJoinRequest,
  expirePendingRequests, deleteEvent and the other write atoms), on any store that
  satisfies the invariant, leaves a store that satisfies it, whether the call succeeds
  or throws.
\<close>

theorem C2_one_active_request_per_pair:
  "(\<forall>uid eid. length (active_requests uid eid (requests (run init_store acts))) \<le> 1) \<and>
   (one_active_per_pair (requests st) \<longrightarrow> one_active_per_pair (requests (exec st a)))"
proof -
  have "one_active_per_pair (requests (run init_store acts))"
    by (rule one_active_run) (simp add: init_store_def one_active_empty)
  then have "\<forall>uid eid. length (active_requests uid eid (requests (run init_store acts))) \<le> 1"
    unfolding one_active_per_pair_def .
  with one_active_exec [of st a] show ?thesis by blast
qed

theorem C2_witness:
  "one_active_per_pair (requests club_store) \<and>
   active_requests ''u3'' ''e2'' (requests club_store) = [carol_doubles] \<and>
   requests (exec club_store (AcceptJoinRequest ''r3'' 10))
     = [(''r1'', bob_singles), (''r2'', carol_singles),
        (''r3'', carol_doubles\<lparr>status := ACCEPTED, updatedAt := 10\<rparr>)] \<and>
   one_active_per_pair (requests (exec club_store (AcceptJoinRequest ''r3'' 10)))"
proof -
  from C2_one_active_request_per_pair [of club_run club_store "AcceptJoinRequest ''r3'' 10"]
  have inv: "one_active_per_pair (requests club_store)"
    and step: "one_active_per_pair (requests club_store) \<longrightarrow>
                 one_active_per_pair (requests (exec club_store (AcceptJoinRequest ''r3'' 10)))"
    by (simp_all add: club_store_reached one_active_per_pair_def)
  have "active_requests ''u3'' ''e2'' (requests club_store) = [carol_doubles]"
    by (simp add: active_requests_def example_defs jm_values_def)
  moreover have "requests (exec club_store (AcceptJoinRequest ''r3'' 10))
     = [(''r1'', bob_singles), (''r2'', carol_singles),
        (''r3'', carol_doubles\<lparr>status := ACCEPTED, updatedAt := 10\<rparr>)]"
    by (simp add: example_defs run_defs)
  ultimately show ?thesis using inv step by simp
qed

section \<open>Settled requests\<close>

lemma settled_accept_fails:
  assumes "jm_get (requests st) rid = Some r" and "status r \<noteq> PENDING"
  shows "\<exists>msg. acceptJoinRequest st rid now = Inl msg"
  using assms by (simp add: acceptJoinRequest_def split: option.splits)

lemma settled_reject_fails:
  assumes "jm_get (requests st) rid = Some r" and "status r \<noteq> PENDING"
  shows "\<exists>msg. rejectJoinRequest st rid now = Inl msg"
  using assms by (simp add: rejectJoinRequest_def split: option.splits)

lemma settled_cancel_fails:
  assumes "jm_get (requests st) rid = Some r" and "status r \<noteq> PENDING"
  shows "\<exists>msg. cancelJoinRequest st rid now now' = Inl msg"
  using assms by (simp add: cancelJoinRequest_def split: option.splits)

lemma get_after_accept:
  assumes "jm_get (requests st) rid = Some r" and "status r \<noteq> PENDING"
  shows "jm_get (requests (after st (acceptJoinRequest st rid' now))) rid = Some r"
proof (cases "acceptJoinRequest st rid' now")
  case (Inl msg)
  with assms show ?thesis by (simp add: after_def)
next
  case (Inr p)
  then obtain r' where "jm_get (requests st) rid' = Some r'" "status r' = PENDING"
    "requests (snd p) = jm_set rid' (r'\<lparr>status := ACCEPTED, updatedAt := now\<rparr>) (requests st)"
    by (auto simp: acceptJoinRequest_def Let_def split: option.splits if_splits)
  with assms Inr show ?thesis by (auto simp: after_def jm_get_set)
qed

lemma get_after_reject:
  assumes "jm_get (requests st) rid = Some r" and "status r \<noteq> PENDING"
  shows "jm_get (requests (after st (rejectJoinRequest st rid' now))) rid = Some r"
proof (cases "rejectJoinRequest st rid' now")
  case (Inl msg)
  with assms show ?thesis by (simp add: after_def)
next
  case (Inr p)
  then obtain r' where "jm_get (requests st) rid' = Some r'" "status r' = PENDING"
    "requests (snd p) = jm_set rid' (r'\<lparr>status := REJECTED, updatedAt := now\<rparr>) (requests st)"
    by (auto simp: rejectJoinRequest_def Let_def split: option.splits if_splits)
  with assms Inr show ?thesis by (auto simp: after_def jm_get_set)
qed

lemma get_after_cancel:
  assumes "jm_get (requests st) rid = Some r" and "status r \<noteq> PENDING"
  shows "jm_get (requests (after st (cancelJoinRequest st rid' now now'))) rid = Some r"
proof (cases "cancelJoinRequest st rid' now now'")
  case (Inl msg)
  with assms show ?thesis by (simp add: after_def)
next
  case (Inr p)
  then obtain r' where "jm_get (requests st) rid' = Some r'" "status r' = PENDING"
    "requests (snd p) = jm_set rid' (r'\<lparr>status := CANCELLED, updatedAt := now'\<rparr>) (requests st)"
    by (auto simp: cancelJoinRequest_def Let_def split: option.splits if_splits)
  with assms Inr show ?thesis by (auto simp: after_def jm_get_set)
qed

lemma get_after_create:
  assumes "jm_get (requests st) rid = Some r" and "newId \<notin> set (jm_keys (requests st))"
  shows "jm_get (requests (after st (createJoinRequest st eid newId now))) rid = Some r"
proof (cases "createJoinRequest st eid newId now")
  case (Inl msg)
  with assms show ?thesis by (simp add: after_def)
next
  case (Inr p)
  then obtain v where "requests (snd p) = jm_set newId v (requests st)"
    by (auto simp: createJoinRequest_def Let_def split: option.splits if_splits)
  moreover from assms have "rid \<noteq> newId"
    by (auto simp: jm_get_None_iff [symmetric])
  ultimately show ?thesis using assms(1) Inr by (simp add: after_def jm_get_set)
qed

lemma get_after_delete:
  assumes "jm_get (requests st) rid = Some r"
  shows "jm_get (requests (case deleteEvent st eid of Inl _ \<Rightarrow> st | Inr st' \<Rightarrow> st')) rid = Some r \<or>
         jm_get (requests (case deleteEvent st eid of Inl _ \<Rightarrow> st | Inr st' \<Rightarrow> st')) rid = None"
proof (cases "deleteEvent st eid")
  case (Inl msg)
  with assms show ?thesis by simp
next
  case (Inr st')
  then have "requests st' = fold (delete_step eid) (requests st) (requests st)"
    by (auto simp: deleteEvent_def split: option.splits if_splits)
  with Inr assms show ?thesis
    by (simp add: fold_delete_step jm_get_filter_keys)
qed

lemma settled_exec:
  assumes "jm_get (requests st) rid = Some r" and "status r \<noteq> PENDING"
    and "distinct (jm_keys (requests st))" and "fresh_id st a"
  shows "jm_get (requests (exec st a)) rid = Some r \<or>
         (removes_requests a \<and> jm_get (requests (exec st a)) rid = None)"
proof (cases a)
  case (Register name password newId now)
  with assms(1) show ?thesis by (simp add: requests_registerUser)
next
  case (Login name password)
  with assms(1) show ?thesis by (simp add: requests_loginUser)
next
  case Logout
  with assms(1) show ?thesis by (simp add: logoutUser_def)
next
  case ClearAllData
  then show ?thesis by (simp add: clearAllData_def)
next
  case (CreateEvent eventData newId now)
  with assms(1) show ?thesis by (simp add: requests_createEvent)
next
  case (UpdateEvent eid updates)
  with assms(1) show ?thesis by (simp add: requests_updateEvent)
next
  case (DeleteEvent eid)
  with get_after_delete [OF assms(1), of eid] show ?thesis by simp
next
  case (CreateJoinRequest eid newId now)
  with assms(4) get_after_create [OF assms(1), of newId eid now] show ?thesis by simp
next
  case (AcceptJoinRequest rid' now)
  with get_after_accept [OF assms(1,2)] show ?thesis by simp
next
  case (RejectJoinRequest rid' now)
  with get_after_reject [OF assms(1,2)] show ?thesis by simp
next
  case (CancelJoinRequest rid' now now')
  with get_after_cancel [OF assms(1,2)] show ?thesis by simp
next
  case (ExpirePendingRequests now)
  with assms(1,2) show ?thesis
    by (simp add: expire_get [OF assms(3)] should_expire_def)
qed

text \<open>
  Claim C3. Let a request be stored with a status other than PENDING (ACCEPTED,
  REJECTED, CANCELLED or EXPIRED). Then acceptJoinRequest, rejectJoinRequest and
  cancelJoinRequest on it throw; expirePendingRequests leaves it as it is; and after
  any call of any write atom the request is stored unchanged, or is no longer stored
  after a deleteEvent or a clearAllData. The keys of Requests are pairwise distinct, as
  the keys of a \<open>Map\<close> are, and the id that createJoinRequest generates is not in use.
\<close>

theorem C3_settled_requests_keep_status:
  assumes "jm_get (requests st) rid = Some r" and "status r \<noteq> PENDING"
  shows "(\<exists>msg. acceptJoinRequest st rid now = Inl msg) \<and>
         (\<exists>msg. rejectJoinRequest st rid now = Inl msg) \<and>
         (\<exists>msg. cancelJoinRequest st rid now now' = Inl msg) \<and>
         (distinct (jm_keys (requests st))
            \<longrightarrow> jm_get (requests (snd (expirePendingRequests st now))) rid = Some r) \<and>
         (distinct (jm_keys (requests st)) \<and> fresh_id st a
            \<longrightarrow> jm_get (requests (exec st a)) rid = Some r \<or>
                (removes_requests a \<and> jm_get (requests (exec st a)) rid = None))"
proof -
  have "distinct (jm_keys (requests st))
          \<longrightarrow> jm_get (requests (snd (expirePendingRequests st now))) rid = Some r"
    using assms by (simp add: expire_get should_expire_def)
  moreover have "distinct (jm_keys (requests st)) \<and> fresh_id st a
            \<longrightarrow> jm_get (requests (exec st a)) rid = Some r \<or>
                (removes_requests a \<and> jm_get (requests (exec st a)) rid = None)"
    using settled_exec [OF assms] by blast
  ultimately show ?thesis
    using settled_accept_fails [OF assms] settled_reject_fails [OF assms]
      settled_cancel_fails [OF assms]
    by blast
qed

theorem C3_witness:
  "jm_get (requests club_store) ''r1'' = Some bob_singles \<and>
   status bob_singles = ACCEPTED \<and>
   distinct (jm_keys (requests club_store)) \<and>
   acceptJoinRequest club_store ''r1'' 10 = Inl ''Request is not pending'' \<and>
   rejectJoinRequest club_store ''r1'' 10 = Inl ''Request is not pending'' \<and>
   cancelJoinRequest club_store ''r1'' 10 10 = Inl ''You can only cancel your own requests'' \<and>
   jm_get (requests (snd (expirePendingRequests club_store 150))) ''r1'' = Some bob_singles \<and>
   jm_get (requests (exec club_store (RejectJoinRequest ''r2'' 10))) ''r1'' = Some bob_singles"
proof -
  have h: "jm_get (requests club_store) ''r1'' = Some bob_singles"
    "status bob_singles \<noteq> PENDING"
    and s: "status bob_singles = ACCEPTED"
    and d: "distinct (jm_keys (requests club_store))"
    and f: "fresh_id club_store (RejectJoinRequest ''r2'' 10)"
    and n: "\<not> removes_requests (RejectJoinRequest ''r2'' 10)"
    by (simp_all add: example_defs jm_keys_def)
  have m: "acceptJoinRequest club_store ''r1'' 10 = Inl ''Request is not pending''"
    "rejectJoinRequest club_store ''r1'' 10 = Inl ''Request is not pending''"
    "cancelJoinRequest club_store ''r1'' 10 10 = Inl ''You can only cancel your own requests''"
    by (simp_all add: acceptJoinRequest_def rejectJoinRequest_def cancelJoinRequest_def
        example_defs session_def)
  from C3_settled_requests_keep_status [OF h, of 150 10 "RejectJoinRequest ''r2'' 10"] d f n
  have "jm_get (requests (snd (expirePendingRequests club_store 150))) ''r1'' = Some bob_singles"
    and "jm_get (requests (exec club_store (RejectJoinRequest ''r2'' 10))) ''r1''
          = Some bob_singles"
    by blast+
  with h(1) s d m show ?thesis by simp
qed

section \<open>The order of start and end time\<close>

lemma set_jm_set: "set (jm_set k v m) \<subseteq> insert (k, v) (set m)"
  by (induction m) (auto split: if_splits)

lemma jm_set_mem: "(k, v) \<in> set (jm_set k v m)"
  by (induction m) auto

lemma values_jm_set: "set (jm_values (jm_set k v m)) \<subseteq> insert v (set (jm_values m))"
  using set_jm_set [of k v m] by (force simp: jm_values_def)

lemma value_jm_set_mem: "v \<in> set (jm_values (jm_set k v m))"
  using jm_set_mem [of k v m] by (force simp: jm_values_def)

text \<open>
  Claim C1 as stated fails: \<open>createEventAtom\<close> and \<open>updateEventAtom\<close> store whatever
  times they are given. Creating an event with \<open>startTime = 600\<close> and \<open>endTime = 500\<close>
  succeeds, and so does an update of the singles match (\<open>startTime = 100\<close>) that sets
  \<open>endTime\<close> to 50; both events are in the Events collection afterwards.
\<close>

theorem C1_counterexample:
  "createEvent club_store late_data ''e3'' 10 =
     Inr (late_event,
          club_store\<lparr>events := [(''e1'', singles), (''e2'', doubles), (''e3'', late_event)]\<rparr>) \<and>
   \<not> endTime late_event > startTime late_event \<and>
   updateEvent club_store ''e1'' (no_updates\<lparr>upd_endTime := Some 50\<rparr>) =
     Inr (singles\<lparr>endTime := 50\<rparr>,
          club_store\<lparr>events := [(''e1'', singles\<lparr>endTime := 50\<rparr>), (''e2'', doubles)]\<rparr>) \<and>
   \<not> endTime (singles\<lparr>endTime := 50\<rparr>) > startTime (singles\<lparr>endTime := 50\<rparr>)"
  by (simp add: createEvent_def updateEvent_def merge_event_def spread_def session_def
      example_defs Let_def)

text \<open>
  Claim C1, amended. createEvent stores \<open>startTime\<close> and \<open>endTime\<close> as given and
  updateEvent stores the merged event as it is. When every event in Events has
  \<open>endTime > startTime\<close> before the call, a successful createEvent whose \<open>eventData\<close>
  has \<open>endTime > startTime\<close>, and a successful updateEvent whose merged event has
  \<open>endTime > startTime\<close>, leave every event in Events with \<open>endTime > startTime\<close>, the
  event just created or updated included.
\<close>

theorem C1_time_order_preserved:
  assumes "\<forall>e\<in>set (jm_values (events st)). endTime e > startTime e"
  shows "(createEvent st eventData newId now = Inr (ev, st')
            \<longrightarrow> startTime ev = d_startTime eventData \<and> endTime ev = d_endTime eventData \<and>
                ev \<in> set (jm_values (events st')) \<and>
                (d_endTime eventData > d_startTime eventData
                   \<longrightarrow> (\<forall>e\<in>set (jm_values (events st')). endTime e > startTime e))) \<and>
         (updateEvent st eid updates = Inr (ev, st')
            \<longrightarrow> (\<exists>old. jm_get (events st) eid = Some old \<and> ev = merge_event old updates) \<and>
                ev \<in> set (jm_values (events st')) \<and>
                (endTime ev > startTime ev
                   \<longrightarrow> (\<forall>e\<in>set (jm_values (events st')). endTime e > startTime e)))"
proof (intro conjI impI)
  assume c: "createEvent st eventData newId now = Inr (ev, st')"
  then have st': "events st' = jm_set newId ev (events st)"
    and t: "startTime ev = d_startTime eventData" "endTime ev = d_endTime eventData"
    by (auto simp: createEvent_def Let_def split: option.splits)
  from t show "startTime ev = d_startTime eventData" "endTime ev = d_endTime eventData" .
  show "ev \<in> set (jm_values (events st'))" by (simp add: st' value_jm_set_mem)
  assume "d_endTime eventData > d_startTime eventData"
  with t assms values_jm_set [of newId ev "events st"]
  show "\<forall>e\<in>set (jm_values (events st')). endTime e > startTime e"
    by (auto simp: st')
next
  assume u: "updateEvent st eid updates = Inr (ev, st')"
  then obtain old where old: "jm_get (events st) eid = Some old" "ev = merge_event old updates"
    and st': "events st' = jm_set eid ev (events st)"
    by (auto simp: updateEvent_def Let_def split: option.splits if_splits)
  from old show "\<exists>old. jm_get (events st) eid = Some old \<and> ev = merge_event old updates"
    by blast
  show "ev \<in> set (jm_values (events st'))" by (simp add: st' value_jm_set_mem)
  assume "endTime ev > startTime ev"
  with assms values_jm_set [of eid ev "events st"]
  show "\<forall>e\<in>set (jm_values (events st')). endTime e > startTime e"
    by (auto simp: st')
qed

theorem C1_witness:
  "list_all (\<lambda>e. endTime e > startTime e) (jm_values (events club_store)) \<and>
   createEvent club_store sample_event_data ''e3'' 10 =
     Inr (sample_event\<lparr>e_id := ''e3'', e_createdAt := 10\<rparr>,
          club_store\<lparr>events := [(''e1'', singles), (''e2'', doubles),
                                 (''e3'', sample_event\<lparr>e_id := ''e3'', e_createdAt := 10\<rparr>)]\<rparr>) \<and>
   d_endTime sample_event_data > d_startTime sample_event_data \<and>
   list_all (\<lambda>e. endTime e > startTime e)
     (jm_values [(''e1'', singles), (''e2'', doubles),
                 (''e3'', sample_event\<lparr>e_id := ''e3'', e_createdAt := 10\<rparr>)]) \<and>
   updateEvent club_store ''e1'' (no_updates\<lparr>upd_endTime := Some 250\<rparr>) =
     Inr (singles\<lparr>endTime := 250\<rparr>,
          club_store\<lparr>events := [(''e1'', singles\<lparr>endTime := 250\<rparr>), (''e2'', doubles)]\<rparr>) \<and>
   list_all (\<lambda>e. endTime e > startTime e)
     (jm_values [(''e1'', singles\<lparr>endTime := 250\<rparr>), (''e2'', doubles)])"
proof -
  have h: "\<forall>e\<in>set (jm_values (events club_store)). endTime e > startTime e"
    by (simp add: example_defs jm_values_def)
  have c: "createEvent club_store sample_event_data ''e3'' 10 =
     Inr (sample_event\<lparr>e_id := ''e3'', e_createdAt := 10\<rparr>,
          club_store\<lparr>events := [(''e1'', singles), (''e2'', doubles),
                                 (''e3'', sample_event\<lparr>e_id := ''e3'', e_createdAt := 10\<rparr>)]\<rparr>)"
    by (simp add: createEvent_def session_def example_defs Let_def)
  have u: "updateEvent club_store ''e1'' (no_updates\<lparr>upd_endTime := Some 250\<rparr>) =
     Inr (singles\<lparr>endTime := 250\<rparr>,
          club_store\<lparr>events := [(''e1'', singles\<lparr>endTime := 250\<rparr>), (''e2'', doubles)]\<rparr>)"
    by (simp add: updateEvent_def merge_event_def spread_def session_def example_defs Let_def)
  have g: "d_endTime sample_event_data > d_startTime sample_event_data"
    "endTime (singles\<lparr>endTime := 250\<rparr>) > startTime (singles\<lparr>endTime := 250\<rparr>)"
    by (simp_all add: example_defs)
  from C1_time_order_preserved [OF h, of sample_event_data "''e3''" 10
      "sample_event\<lparr>e_id := ''e3'', e_createdAt := 10\<rparr>"
      "club_store\<lparr>events := [(''e1'', singles), (''e2'', doubles),
                               (''e3'', sample_event\<lparr>e_id := ''e3'', e_createdAt := 10\<rparr>)]\<rparr>"]
    c g(1)
  have a: "\<forall>e\<in>set (jm_values [(''e1'', singles), (''e2'', doubles),
                 (''e3'', sample_event\<lparr>e_id := ''e3'', e_createdAt := 10\<rparr>)]).
             endTime e > startTime e"
    by simp
  from C1_time_order_preserved [OF h, of _ _ _ "singles\<lparr>endTime := 250\<rparr>"
      "club_store\<lparr>events := [(''e1'', singles\<lparr>endTime := 250\<rparr>), (''e2'', doubles)]\<rparr>"
      "''e1''" "no_updates\<lparr>upd_endTime := Some 250\<rparr>"]
    u g(2)
  have b: "\<forall>e\<in>set (jm_values [(''e1'', singles\<lparr>endTime := 250\<rparr>), (''e2'', doubles)]).
             endTime e > startTime e"
    by simp
  from h a b c u g(1) show ?thesis by (simp add: list_all_iff)
qed

end
